theory Spec2Isabelle
  imports Main "HOL-Library.Word"
begin

section \<open>The immutable table file\<close>

text \<open>
  The definitions follow \<^verbatim>\<open>engine/immutable/tssp_file.go\<close>: the file type \<open>tsspFile\<close> with
  its counter of references, its stop flag and its reader, and the collection \<open>TSSPFiles\<close>.
\<close>

subsection \<open>Results of a call\<close>

text \<open>
  A Go call either returns, or panics with a message, or never comes back because it waits
  on a wait-group whose counter nobody can bring to zero any more.
\<close>

datatype 'a outcome = Return 'a | Panics string | Blocks

text \<open>
  The error values the file type produces or passes on. \<open>errFileClosed\<close> is the
  package variable of that name; \<open>SegmentOutOfRange\<close> stands for the error
  \<^verbatim>\<open>fmt.Errorf("segment index %d out of range %d", segment, cm.segmentCount())\<close>;
  \<open>errRemoveFail\<close> wraps the path and the cause of a failed unlink. \<open>ErrNotExist\<close>
  and \<open>ErrOther\<close> are the errors of the operating system and of the reader.
\<close>

datatype error =
    errFileClosed
  | SegmentOutOfRange int int
  | ErrNotExist
  | ErrOther string
  | errRemoveFail string error

fun IsNotExist :: "error \<Rightarrow> bool" where
  "IsNotExist ErrNotExist = True"
| "IsNotExist _ = False"

subsection \<open>Data passed through to the reader\<close>

text \<open>
  \<open>record.TimeRange\<close>, \<open>MetaIndex\<close>, \<open>record.Record\<close>, \<open>ReadContext\<close>
  and \<open>record.Field\<close> are declared outside this file and are only handed on to the
  reader. A Go pointer to one of them is an \<open>option\<close> (\<open>None\<close> is \<open>nil\<close>),
  a slice is a list (the \<open>nil\<close> slice is \<open>[]\<close>).
\<close>

typedecl TimeRange
typedecl MetaIndex
typedecl Record
typedecl ReadContext
typedecl Field

type_synonym bytes = "8 word list"

text \<open>
  Modelled from the spec: the declaration of \<open>ChunkMeta\<close> and its method
  \<open>segmentCount\<close> are missing from the source files. The spec describes a chunk meta as
  the per-series descriptor listing the segments of one chunk, each with its minimum and maximum
  time and its byte offset; \<open>segmentCount\<close> is the number of these segments.
\<close>

record ChunkMeta =
  segments :: "(64 word \<times> 64 word \<times> 64 word) list"

definition segmentCount :: "ChunkMeta \<Rightarrow> int" where
  "segmentCount cm = int (length (segments cm))"

subsection \<open>The reader behind a file\<close>

text \<open>
  The field \<open>reader\<close> of a file holds a value of the interface \<open>TSSPFileReader\<close>,
  whose implementation is not part of this file. It is taken as a parameter: a record with one
  component per method that the file calls. \<open>reader_closed\<close> records that \<open>Close\<close>
  was called on it.
\<close>

record TSSPFileReader =
  reader_Path :: string
  reader_Name :: string
  reader_InMemSize :: int
  reader_closed :: bool
  reader_MetaIndex :: "64 word \<Rightarrow> TimeRange \<Rightarrow> int \<times> MetaIndex option \<times> error option"
  reader_MetaIndexAt :: "int \<Rightarrow> MetaIndex option \<times> error option"
  reader_ChunkMeta :: "64 word \<Rightarrow> 64 word \<Rightarrow> 32 word \<Rightarrow> 32 word \<Rightarrow> int \<Rightarrow>
     ChunkMeta option \<Rightarrow> bytes option \<Rightarrow> ChunkMeta option \<times> error option"
  reader_ChunkMetaAt :: "int \<Rightarrow> ChunkMeta option \<times> error option"
  reader_ReadData :: "64 word \<Rightarrow> 32 word \<Rightarrow> bytes option \<Rightarrow> bytes \<times> error option"
  reader_ReadChunkMetaData :: "int \<Rightarrow> MetaIndex option \<Rightarrow> ChunkMeta list \<Rightarrow>
     ChunkMeta list \<times> error option"
  reader_ReadAt :: "ChunkMeta \<Rightarrow> int \<Rightarrow> Record option \<Rightarrow> ReadContext option \<Rightarrow>
     Record option \<times> error option"
  reader_Contains :: "64 word \<Rightarrow> bool \<times> error option"
  reader_ContainsValue :: "64 word \<Rightarrow> TimeRange \<Rightarrow> bool \<times> error option"
  reader_ContainsTime :: "TimeRange \<Rightarrow> bool \<times> error option"
  reader_MinMaxTime :: "64 word \<times> 64 word \<times> error option"
  reader_BlockHeader :: "ChunkMeta option \<Rightarrow> Field list \<Rightarrow> Field list \<times> error option"
  reader_ReadMetaBlock :: "int \<Rightarrow> 64 word \<Rightarrow> 64 word \<Rightarrow> 32 word \<Rightarrow> 32 word \<Rightarrow>
     bytes option \<Rightarrow> bytes \<times> error option"
  reader_ReadDataBlock :: "64 word \<Rightarrow> 32 word \<Rightarrow> bytes option \<Rightarrow> bytes \<times> error option"

definition reader_Close :: "TSSPFileReader \<Rightarrow> TSSPFileReader" where
  "reader_Close r = r\<lparr>reader_closed := True\<rparr>"

subsection \<open>The file\<close>

text \<open>
  \<open>TSSPFileName\<close> is used by this file through its fields \<open>seq\<close>, \<open>level\<close>,
  \<open>merge\<close>, \<open>extent\<close> and \<open>order\<close> only.
\<close>

record TSSPFileName =
  seq :: "64 word"
  level :: "16 word"
  merge :: "16 word"
  extent :: "16 word"
  order :: bool

text \<open>
  The struct \<open>tsspFile\<close>. \<open>ref\<close> is an \<open>int32\<close> (read with \<open>sint\<close>) and
  \<open>flag\<close> a \<open>uint32\<close>, both changed by wrapping atomic additions. \<open>wg\<close> is
  the counter of the wait-group, which never is negative. \<open>lock\<close> is a pointer to a
  string, \<open>memEle\<close> a pointer to the file's element in the eviction list of its level.
  The mutex \<open>mu\<close> has no state between two calls and is left out.
\<close>

record tsspFile =
  name :: TSSPFileName
  ref :: "32 word"
  flag :: "32 word"
  lock :: "string option"
  memEle :: "nat option"
  reader :: TSSPFileReader
  wg :: nat

definition stopped :: "tsspFile \<Rightarrow> bool" where
  "stopped f = (0 < flag f)"

definition Stop :: "tsspFile \<Rightarrow> tsspFile" where
  "Stop f = f\<lparr>flag := flag f + 1\<rparr>"

definition Inuse :: "tsspFile \<Rightarrow> bool" where
  "Inuse f = (1 < sint (ref f))"

definition Ref :: "tsspFile \<Rightarrow> tsspFile" where
  "Ref f = (if stopped f then f else f\<lparr>ref := ref f + 1, wg := wg f + 1\<rparr>)"

text \<open>
  \<open>Unref\<close>: the counter is decremented first; \<open>wg.Done()\<close> panics when the counter of
  the wait-group would become negative.
\<close>

definition Unref :: "tsspFile \<Rightarrow> tsspFile outcome" where
  "Unref f =
     (let f1 = f\<lparr>ref := ref f - 1\<rparr> in
      if sint (ref f1) \<le> 0 then
        (if stopped f1 then Return f1 else Panics ''file closed'')
      else if wg f1 = 0 then Panics ''sync: negative WaitGroup counter''
      else Return (f1\<lparr>wg := wg f1 - 1\<rparr>))"

definition LevelAndSequence :: "tsspFile \<Rightarrow> 16 word \<times> 64 word" where
  "LevelAndSequence f = (level (name f), seq (name f))"

definition FileNameMerge :: "tsspFile \<Rightarrow> 16 word" where
  "FileNameMerge f = merge (name f)"

definition FileNameExtend :: "tsspFile \<Rightarrow> 16 word" where
  "FileNameExtend f = extent (name f)"

definition Path :: "tsspFile \<Rightarrow> string" where
  "Path f = (if stopped f then [] else reader_Path (reader f))"

definition Name :: "tsspFile \<Rightarrow> string" where
  "Name f = (if stopped f then [] else reader_Name (reader f))"

definition IsOrder :: "tsspFile \<Rightarrow> bool" where
  "IsOrder f = order (name f)"

subsection \<open>Reading through a file\<close>

definition MetaIndex :: "tsspFile \<Rightarrow> 64 word \<Rightarrow> TimeRange \<Rightarrow> int \<times> MetaIndex option \<times> error option" where
  "MetaIndex f sid tr =
     (if stopped f then (0, None, Some errFileClosed) else reader_MetaIndex (reader f) sid tr)"

definition MetaIndexAt :: "tsspFile \<Rightarrow> int \<Rightarrow> MetaIndex option \<times> error option" where
  "MetaIndexAt f idx =
     (if stopped f then (None, Some errFileClosed) else reader_MetaIndexAt (reader f) idx)"

definition ChunkMeta :: "tsspFile \<Rightarrow> 64 word \<Rightarrow> 64 word \<Rightarrow> 32 word \<Rightarrow> 32 word \<Rightarrow> int \<Rightarrow>
    ChunkMeta option \<Rightarrow> bytes option \<Rightarrow> ChunkMeta option \<times> error option" where
  "ChunkMeta f sid offset sz itemCount metaIdx dst buffer =
     (if stopped f then (None, Some errFileClosed)
      else reader_ChunkMeta (reader f) sid offset sz itemCount metaIdx dst buffer)"

definition Read :: "tsspFile \<Rightarrow> 64 word \<Rightarrow> TimeRange \<Rightarrow> Record option \<Rightarrow>
    (Record option \<times> error option) outcome" where
  "Read f sid tr dst = Panics ''impl me''"

definition ReadData :: "tsspFile \<Rightarrow> 64 word \<Rightarrow> 32 word \<Rightarrow> bytes option \<Rightarrow> bytes \<times> error option" where
  "ReadData f offset sz dst =
     (if stopped f then ([], Some errFileClosed) else reader_ReadData (reader f) offset sz dst)"

definition ReadChunkMetaData :: "tsspFile \<Rightarrow> int \<Rightarrow> MetaIndex option \<Rightarrow> ChunkMeta list \<Rightarrow>
    ChunkMeta list \<times> error option" where
  "ReadChunkMetaData f metaIdx m dst =
     (if stopped f then (dst, Some errFileClosed)
      else reader_ReadChunkMetaData (reader f) metaIdx m dst)"

text \<open>
  \<open>ReadAt\<close> takes the chunk meta by pointer and calls \<open>segmentCount\<close> on it; the model
  takes the chunk meta itself. The line written to the log on the error path is left out.
\<close>

definition ReadAt :: "tsspFile \<Rightarrow> ChunkMeta \<Rightarrow> int \<Rightarrow> Record option \<Rightarrow> ReadContext option \<Rightarrow>
    Record option \<times> error option" where
  "ReadAt f cm segment dst decs =
     (if stopped f then (None, Some errFileClosed)
      else if segment < 0 \<or> segment \<ge> segmentCount cm then
        (None, Some (SegmentOutOfRange segment (segmentCount cm)))
      else reader_ReadAt (reader f) cm segment dst decs)"

definition ChunkMetaAt :: "tsspFile \<Rightarrow> int \<Rightarrow> ChunkMeta option \<times> error option" where
  "ChunkMetaAt f index =
     (if stopped f then (None, Some errFileClosed) else reader_ChunkMetaAt (reader f) index)"

definition Contains :: "tsspFile \<Rightarrow> 64 word \<Rightarrow> bool \<times> error option" where
  "Contains f sid =
     (if stopped f then (False, Some errFileClosed) else reader_Contains (reader f) sid)"

definition ContainsValue :: "tsspFile \<Rightarrow> 64 word \<Rightarrow> TimeRange \<Rightarrow> bool \<times> error option" where
  "ContainsValue f sid tr =
     (if stopped f then (False, Some errFileClosed) else reader_ContainsValue (reader f) sid tr)"

definition ContainsTime :: "tsspFile \<Rightarrow> TimeRange \<Rightarrow> bool \<times> error option" where
  "ContainsTime f tr =
     (if stopped f then (False, Some errFileClosed) else reader_ContainsTime (reader f) tr)"

definition Delete :: "tsspFile \<Rightarrow> 64 word list \<Rightarrow> (error option) outcome" where
  "Delete f ids = Panics ''impl me''"

definition DeleteRange :: "tsspFile \<Rightarrow> 64 word list \<Rightarrow> 64 word \<Rightarrow> 64 word \<Rightarrow> (error option) outcome" where
  "DeleteRange f ids mn mx = Panics ''impl me''"

definition HasTombstones :: "tsspFile \<Rightarrow> bool outcome" where
  "HasTombstones f = Panics ''impl me''"

text \<open>\<open>TombstoneFile\<close> is declared elsewhere; a tombstone file is named by its path here.\<close>

definition TombstoneFiles :: "tsspFile \<Rightarrow> (string list) outcome" where
  "TombstoneFiles f = Panics ''impl me''"

definition MinMaxTime :: "tsspFile \<Rightarrow> 64 word \<times> 64 word \<times> error option" where
  "MinMaxTime f =
     (if stopped f then (0, 0, Some errFileClosed) else reader_MinMaxTime (reader f))"

definition BlockHeader :: "tsspFile \<Rightarrow> ChunkMeta option \<Rightarrow> Field list \<Rightarrow> Field list \<times> error option" where
  "BlockHeader f meta dst = reader_BlockHeader (reader f) meta dst"

definition ReadMetaBlock :: "tsspFile \<Rightarrow> int \<Rightarrow> 64 word \<Rightarrow> 64 word \<Rightarrow> 32 word \<Rightarrow> 32 word \<Rightarrow>
    bytes option \<Rightarrow> bytes \<times> error option" where
  "ReadMetaBlock f metaIdx sid offset sz cnt dst =
     reader_ReadMetaBlock (reader f) metaIdx sid offset sz cnt dst"

definition ReadDataBlock :: "tsspFile \<Rightarrow> 64 word \<Rightarrow> 32 word \<Rightarrow> bytes option \<Rightarrow> bytes \<times> error option" where
  "ReadDataBlock f offset sz dst = reader_ReadDataBlock (reader f) offset sz dst"

subsection \<open>Opening a file\<close>

text \<open>
  The value that \<open>OpenTSSPFile\<close> returns once the name is parsed and the reader is
  opened: one reference (the one of the owning set), no stop flag, nothing waited for, not in
  any eviction list.
\<close>

definition OpenTSSPFile :: "TSSPFileName \<Rightarrow> TSSPFileReader \<Rightarrow> string option \<Rightarrow> tsspFile" where
  "OpenTSSPFile fileName fr lockPath =
     \<lparr>name = fileName, ref = 1, flag = 0, lock = lockPath, memEle = None, reader = fr, wg = 0\<rparr>"

subsection \<open>Memory accounting and eviction lists\<close>

text \<open>
  Modelled from the spec: \<open>addMemSize\<close>, \<open>levelName\<close>, \<open>levelEvictListLock\<close> and
  \<open>levelEvictListUnLock\<close> are missing from the source files. The spec describes a fixed
  array indexed by level, each entry owning an LRU list of the files whose readers hold cached
  bytes and three counters \<open>total_bytes\<close>, \<open>order_bytes\<close> and \<open>unorder_bytes\<close>;
  \<open>add_mem(level, total, order, unorder)\<close> adjusts the three counters. A list holds the
  handles of its elements. \<open>unlinked\<close> lists the paths handed to \<open>fileops.Remove\<close>,
  the latest first.
\<close>

record LevelEntry =
  lru :: "nat list"
  total_bytes :: int
  order_bytes :: int
  unorder_bytes :: int

record Env =
  levels :: "16 word \<Rightarrow> LevelEntry"
  unlinked :: "string list"

definition addMemSize :: "16 word \<Rightarrow> int \<Rightarrow> int \<Rightarrow> int \<Rightarrow> Env \<Rightarrow> Env" where
  "addMemSize lvl tot ordered unordered env =
     (let e = levels env lvl in
      env\<lparr>levels := (levels env)(lvl :=
        e\<lparr>total_bytes := total_bytes e + tot,
          order_bytes := order_bytes e + ordered,
          unorder_bytes := unorder_bytes e + unordered\<rparr>)\<rparr>)"

definition RemoveFromEvictList :: "16 word \<Rightarrow> tsspFile \<Rightarrow> Env \<Rightarrow> tsspFile \<times> Env" where
  "RemoveFromEvictList lvl f env =
     (case memEle f of
        None \<Rightarrow> (f, env)
      | Some e \<Rightarrow>
          (f\<lparr>memEle := None\<rparr>,
           env\<lparr>levels := (levels env)(lvl :=
             (levels env lvl)\<lparr>lru := remove1 e (lru (levels env lvl))\<rparr>)\<rparr>))"

subsection \<open>Removing a file\<close>

text \<open>
  \<open>fileops.Remove\<close> belongs to another package; its answer for a path and a lock is the
  parameter \<open>fileops_Remove\<close> (\<open>None\<close> is the \<open>nil\<close> error). \<open>wg.Wait()\<close> is
  reached only after the counter of references became zero: from then on no call of
  \<open>Unref\<close> reaches \<open>wg.Done()\<close>, so a wait-group that is not at zero is waited for
  for ever. The lines written to the log are left out.
\<close>

definition Remove :: "(string \<Rightarrow> string \<Rightarrow> error option) \<Rightarrow> tsspFile \<Rightarrow> Env \<Rightarrow>
    (error option \<times> tsspFile \<times> Env) outcome" where
  "Remove fileops_Remove f env =
     (let f1 = f\<lparr>flag := flag f + 1\<rparr>;
          f2 = f1\<lparr>ref := ref f1 - 1\<rparr>
      in
      if ref f2 = 0 then
        (if wg f2 \<noteq> 0 then Blocks
         else
          (let path = reader_Path (reader f2);
               memSize = reader_InMemSize (reader f2);
               lvl = level (name f2);
               ord = order (name f2);
               f3 = f2\<lparr>reader := reader_Close (reader f2)\<rparr>
           in
           case lock f3 of
             None \<Rightarrow> Panics ''invalid memory address or nil pointer dereference''
           | Some lockPath \<Rightarrow>
              (let err = fileops_Remove path lockPath;
                   env1 = env\<lparr>unlinked := path # unlinked env\<rparr>
               in
               if err \<noteq> None \<and> \<not> IsNotExist (the err) then
                 Return (Some (errRemoveFail path (the err)), f3, env1)
               else if memSize > 0 then
                 (let env2 = (if ord then addMemSize lvl (- memSize) (- memSize) 0 env1
                              else addMemSize lvl (- memSize) 0 (- memSize) env1);
                      (f4, env3) = RemoveFromEvictList lvl f3 env2
                  in Return (None, f4, env3))
               else Return (None, f3, env1))))
      else Return (None, f2, env))"

subsection \<open>Sequences of calls on one file\<close>

datatype call = CallRef | CallUnref | CallRemove

fun step :: "(string \<Rightarrow> string \<Rightarrow> error option) \<Rightarrow> call \<Rightarrow> tsspFile \<times> Env \<Rightarrow>
    (tsspFile \<times> Env) outcome" where
  "step rm CallRef (f, env) = Return (Ref f, env)"
| "step rm CallUnref (f, env) =
     (case Unref f of
        Return f' \<Rightarrow> Return (f', env)
      | Panics m \<Rightarrow> Panics m
      | Blocks \<Rightarrow> Blocks)"
| "step rm CallRemove (f, env) =
     (case Remove rm f env of
        Return (err, f', env') \<Rightarrow> Return (f', env')
      | Panics m \<Rightarrow> Panics m
      | Blocks \<Rightarrow> Blocks)"

fun run :: "(string \<Rightarrow> string \<Rightarrow> error option) \<Rightarrow> call list \<Rightarrow> tsspFile \<times> Env \<Rightarrow>
    (tsspFile \<times> Env) outcome" where
  "run rm [] s = Return s"
| "run rm (c # cs) s =
     (case step rm c s of
        Return s' \<Rightarrow> run rm cs s'
      | Panics m \<Rightarrow> Panics m
      | Blocks \<Rightarrow> Blocks)"

section \<open>The collection of files\<close>

text \<open>
  The struct \<open>TSSPFiles\<close>; its fields \<open>ref\<close> and \<open>wg\<close> are written
  \<open>files_ref\<close> and \<open>files_wg\<close>, the lock is left out. The members are values of the
  interface \<open>TSSPFile\<close>, which \<open>tsspFile\<close> implements.
\<close>

record TSSPFiles =
  files_ref :: "64 word"
  files_wg :: nat
  closing :: "64 word"
  files :: "tsspFile list"

definition NewTSSPFiles :: TSSPFiles where
  "NewTSSPFiles = \<lparr>files_ref = 1, files_wg = 0, closing = 0, files = []\<rparr>"

definition Len :: "TSSPFiles \<Rightarrow> nat" where
  "Len F = length (files F)"

definition Append :: "TSSPFiles \<Rightarrow> tsspFile \<Rightarrow> TSSPFiles" where
  "Append F file = F\<lparr>files := files F @ [file]\<rparr>"

definition StopFiles :: "TSSPFiles \<Rightarrow> TSSPFiles" where
  "StopFiles F = F\<lparr>closing := closing F + 1, files := map Stop (files F)\<rparr>"

function fullCompacted_loop :: "tsspFile list \<Rightarrow> 16 word \<Rightarrow> 64 word \<Rightarrow> nat \<Rightarrow> bool \<Rightarrow> bool" where
  "fullCompacted_loop fs lv sq i sameLeve =
     (if i < length fs then
        (if sameLeve then
           (let (lvl, curSeq) = LevelAndSequence (fs ! i)
            in fullCompacted_loop fs lv sq (i + 1) (lv = lvl \<and> curSeq = sq))
         else sameLeve)
      else sameLeve)"
  by pat_completeness auto
termination
  by (relation "measure (\<lambda>(fs, lv, sq, i, b). length fs - i)") auto

declare fullCompacted_loop.simps [simp del]

definition fullCompacted :: "TSSPFiles \<Rightarrow> bool" where
  "fullCompacted F =
     (if length (files F) \<le> 1 then True
      else (let (lv, sq) = LevelAndSequence (files F ! 0)
            in fullCompacted_loop (files F) lv sq 1 True))"

definition Less :: "TSSPFiles \<Rightarrow> nat \<Rightarrow> nat \<Rightarrow> bool" where
  "Less F i j =
     (let iSeq = snd (LevelAndSequence (files F ! i));
          jSeq = snd (LevelAndSequence (files F ! j));
          iExt = FileNameExtend (files F ! i);
          jExt = FileNameExtend (files F ! j)
      in if iSeq \<noteq> jSeq then iSeq < jSeq else iExt < jExt)"

text \<open>
  A collection is sorted by \<open>Less\<close> when no later member is less than an earlier one, which
  is what \<open>sort.Sort\<close> establishes.
\<close>

definition sorted_by_Less :: "TSSPFiles \<Rightarrow> bool" where
  "sorted_by_Less F = (\<forall>j < length (files F). \<forall>i < j. \<not> Less F j i)"

text \<open>
  \<open>fileIndex\<close>. The binary search keeps \<open>left\<close> and \<open>right\<close> between \<open>0\<close> and
  \<open>Len() - 1\<close>, so they are natural numbers; the index \<open>idx\<close> with its value \<open>-1\<close>
  and the counters of the two scans are integers. An index outside the slice panics. The search
  returns \<open>idx\<close> and \<open>left\<close>; a scan returns \<open>Some i\<close> where the source returns
  \<open>i\<close> from \<open>fileIndex\<close>, and \<open>None\<close> where its loop ends.
\<close>

function fileIndex_search :: "tsspFile list \<Rightarrow> 64 word \<Rightarrow> nat \<Rightarrow> nat \<Rightarrow> (int \<times> nat) outcome" where
  "fileIndex_search fs sq left right =
     (if left < right then
        (let mid = (left + right) div 2 in
         if mid < length fs then
           (let n = snd (LevelAndSequence (fs ! mid)) in
            if sq = n then Return (int mid, left)
            else if sq < n then fileIndex_search fs sq left mid
            else fileIndex_search fs sq (mid + 1) right)
         else Panics ''index out of range'')
      else Return (- 1, left))"
  by pat_completeness auto
termination
  by (relation "measure (\<lambda>(fs, sq, left, right). right - left)") auto

declare fileIndex_search.simps [simp del]

function fileIndex_down :: "tsspFile list \<Rightarrow> 64 word \<Rightarrow> string \<Rightarrow> int \<Rightarrow> (int option) outcome" where
  "fileIndex_down fs sq p i =
     (if i \<ge> 0 then
        (if i < int (length fs) then
           (if snd (LevelAndSequence (fs ! nat i)) \<noteq> sq then Return None
            else if Path (fs ! nat i) = p then Return (Some i)
            else fileIndex_down fs sq p (i - 1))
         else Panics ''index out of range'')
      else Return None)"
  by pat_completeness auto
termination
  by (relation "measure (\<lambda>(fs, sq, p, i). nat (i + 1))") auto

declare fileIndex_down.simps [simp del]

function fileIndex_up :: "tsspFile list \<Rightarrow> 64 word \<Rightarrow> string \<Rightarrow> int \<Rightarrow> (int option) outcome" where
  "fileIndex_up fs sq p i =
     (if i < int (length fs) then
        (if 0 \<le> i then
           (if snd (LevelAndSequence (fs ! nat i)) \<noteq> sq then Return None
            else if Path (fs ! nat i) = p then Return (Some i)
            else fileIndex_up fs sq p (i + 1))
         else Panics ''index out of range'')
      else Return None)"
  by pat_completeness auto
termination
  by (relation "measure (\<lambda>(fs, sq, p, i). nat (int (length fs) - i))") auto

declare fileIndex_up.simps [simp del]

definition fileIndex_left :: "tsspFile list \<Rightarrow> string \<Rightarrow> nat \<Rightarrow> int outcome" where
  "fileIndex_left fs p left =
     (if left < length fs then
        (if Path (fs ! left) = p then Return (int left) else Return (- 1))
      else Panics ''index out of range'')"

definition fileIndex :: "TSSPFiles \<Rightarrow> tsspFile \<Rightarrow> int outcome" where
  "fileIndex F tbl =
     (if length (files F) = 0 then Return (- 1)
      else
       (let sq = snd (LevelAndSequence tbl); p = Path tbl in
        case fileIndex_search (files F) sq 0 (Len F - 1) of
          Panics m \<Rightarrow> Panics m
        | Blocks \<Rightarrow> Blocks
        | Return (idx, left) \<Rightarrow>
            if idx \<noteq> - 1 then
              (case fileIndex_down (files F) sq p idx of
                 Panics m \<Rightarrow> Panics m
               | Blocks \<Rightarrow> Blocks
               | Return (Some i) \<Rightarrow> Return i
               | Return None \<Rightarrow>
                  (case fileIndex_up (files F) sq p (idx + 1) of
                     Panics m \<Rightarrow> Panics m
                   | Blocks \<Rightarrow> Blocks
                   | Return (Some i) \<Rightarrow> Return i
                   | Return None \<Rightarrow> fileIndex_left (files F) p left))
            else fileIndex_left (files F) p left))"

section \<open>Example values\<close>

definition example_reader :: "string \<Rightarrow> TSSPFileReader" where
  "example_reader p =
     \<lparr>reader_Path = p, reader_Name = ''cpu'', reader_InMemSize = 4096, reader_closed = False,
      reader_MetaIndex = (\<lambda>sid tr. (0, None, None)),
      reader_MetaIndexAt = (\<lambda>idx. (None, None)),
      reader_ChunkMeta = (\<lambda>sid offset sz itemCount metaIdx dst buffer. (dst, None)),
      reader_ChunkMetaAt = (\<lambda>idx. (None, None)),
      reader_ReadData = (\<lambda>offset sz dst. ([1, 2, 3], None)),
      reader_ReadChunkMetaData = (\<lambda>metaIdx m dst. (dst, None)),
      reader_ReadAt = (\<lambda>cm segment dst decs. (dst, None)),
      reader_Contains = (\<lambda>sid. (True, None)),
      reader_ContainsValue = (\<lambda>sid tr. (True, None)),
      reader_ContainsTime = (\<lambda>tr. (True, None)),
      reader_MinMaxTime = (1, 9, None),
      reader_BlockHeader = (\<lambda>meta dst. (dst, None)),
      reader_ReadMetaBlock = (\<lambda>metaIdx sid offset sz cnt dst. ([4, 5], None)),
      reader_ReadDataBlock = (\<lambda>offset sz dst. ([1, 2, 3], None))\<rparr>"

definition example_file :: "64 word \<Rightarrow> 16 word \<Rightarrow> 16 word \<Rightarrow> string \<Rightarrow> tsspFile" where
  "example_file s l e p =
     OpenTSSPFile \<lparr>seq = s, level = l, merge = 0, extent = e, order = True\<rparr>
       (example_reader p) (Some ''/data/shard/lock'')"

definition example_files :: TSSPFiles where
  "example_files =
     \<lparr>files_ref = 1, files_wg = 0, closing = 0,
      files = [example_file 1 0 0 ''a'', example_file 1 0 1 ''b'', example_file 2 0 0 ''c'']\<rparr>"

definition example_env :: Env where
  "example_env =
     \<lparr>levels = (\<lambda>lvl. \<lparr>lru = [7, 3], total_bytes = 8192, order_bytes = 8192,
                         unorder_bytes = 0\<rparr>),
      unlinked = []\<rparr>"

definition example_cached_file :: tsspFile where
  "example_cached_file = (example_file 1 0 0 ''a'')\<lparr>memEle := Some 7\<rparr>"

section \<open>Properties of the file\<close>

subsection \<open>Taking and releasing references\<close>

lemma sint_succ: "sint (x :: 32 word) < 2147483647 \<Longrightarrow> sint (x + 1) = sint x + 1"
proof -
  assume a: "sint x < 2147483647"
  have lo: "- (2 ^ 31) \<le> sint x" using sint_ge[of x] by simp
  have "sint (x + 1) = signed_take_bit 31 (sint x + sint (1 :: 32 word))"
    by (simp add: sint_word_ariths)
  also have "\<dots> = signed_take_bit 31 (sint x + 1)" by simp
  also have "\<dots> = sint x + 1"
    using a lo by (intro signed_take_bit_int_eq_self) simp_all
  finally show ?thesis .
qed

text \<open>
  Claim C7. \<open>Ref\<close> on a stopped file changes nothing: neither the counter of references nor
  the wait-group. On a file that is not stopped it adds one to the counter (in 32-bit
  arithmetic, so by exactly one below the largest \<open>int32\<close>) and one to the wait-group, and
  changes nothing else.
\<close>

theorem Ref_stopped_or_counted:
  "(stopped f \<longrightarrow> Ref f = f) \<and>
   (\<not> stopped f \<longrightarrow>
      Ref f = f\<lparr>ref := ref f + 1, wg := wg f + 1\<rparr> \<and>
      ref (Ref f) = ref f + 1 \<and> wg (Ref f) = wg f + 1 \<and>
      (sint (ref f) < 2147483647 \<longrightarrow> sint (ref (Ref f)) = sint (ref f) + 1))"
  by (simp add: Ref_def sint_succ)

theorem Ref_stopped_or_counted_witness:
  "stopped (Stop (example_file 1 0 0 ''a'')) \<and>
   Ref (Stop (example_file 1 0 0 ''a'')) = Stop (example_file 1 0 0 ''a'') \<and>
   \<not> stopped (example_file 1 0 0 ''a'') \<and>
   ref (Ref (example_file 1 0 0 ''a'')) = 2 \<and>
   wg (Ref (example_file 1 0 0 ''a'')) = 1 \<and>
   sint (ref (Ref (example_file 1 0 0 ''a''))) = 2"
  using Ref_stopped_or_counted[of "Stop (example_file 1 0 0 ''a'')"]
    Ref_stopped_or_counted[of "example_file 1 0 0 ''a''"]
  by (simp add: example_file_def OpenTSSPFile_def stopped_def Stop_def)

text \<open>
  Claim C6. On a file that is not stopped, an \<open>Unref\<close> whose decrement leaves the counter
  of references at zero or below panics with the message \<open>file closed\<close>; it does not return.
\<close>

theorem Unref_traps_when_not_stopped:
  "\<not> stopped f \<Longrightarrow> sint (ref f - 1) \<le> 0 \<Longrightarrow> Unref f = Panics ''file closed''"
  by (simp add: Unref_def stopped_def)

theorem Unref_traps_when_not_stopped_witness:
  "\<not> stopped (example_file 1 0 0 ''a'') \<and>
   sint (ref (example_file 1 0 0 ''a'') - 1) \<le> 0 \<and>
   Unref (example_file 1 0 0 ''a'') = Panics ''file closed''"
  using Unref_traps_when_not_stopped[of "example_file 1 0 0 ''a''"]
  by (simp add: example_file_def OpenTSSPFile_def stopped_def)

subsection \<open>Path and name of a stopped file\<close>

text \<open>
  Claim C10. Once the stop flag of a file is set, \<open>Path\<close> and \<open>Name\<close> return the empty
  string, whatever path and name the reader has: a plain value, not an error.
\<close>

theorem Path_Name_empty_when_stopped:
  "stopped f \<Longrightarrow> Path f = [] \<and> Name f = []"
  by (simp add: Path_def Name_def)

theorem Path_Name_empty_when_stopped_witness:
  "stopped (Stop (example_file 1 0 0 ''a'')) \<and>
   Path (Stop (example_file 1 0 0 ''a'')) = [] \<and>
   Name (Stop (example_file 1 0 0 ''a'')) = [] \<and>
   Path (example_file 1 0 0 ''a'') = ''a'' \<and>
   Name (example_file 1 0 0 ''a'') = ''cpu''"
  using Path_Name_empty_when_stopped[of "Stop (example_file 1 0 0 ''a'')"]
  by (simp add: example_file_def OpenTSSPFile_def stopped_def Stop_def Path_def Name_def
      example_reader_def)

subsection \<open>Reads\<close>

text \<open>
  Claim C8. On a file that is not stopped, \<open>ReadAt\<close> with a segment index that is negative
  or not below the segment count of the chunk meta returns the out-of-range error, a value that
  does not depend on the reader; with an index in range it returns what the reader's
  \<open>ReadAt\<close> returns for the same arguments.
\<close>

theorem ReadAt_segment_index:
  assumes "\<not> stopped f"
  shows "(segment < 0 \<or> segmentCount cm \<le> segment \<longrightarrow>
            ReadAt f cm segment dst decs =
              (None, Some (SegmentOutOfRange segment (segmentCount cm)))) \<and>
         (0 \<le> segment \<and> segment < segmentCount cm \<longrightarrow>
            ReadAt f cm segment dst decs = reader_ReadAt (reader f) cm segment dst decs)"
  using assms by (auto simp add: ReadAt_def)

theorem ReadAt_segment_index_witness:
  "\<not> stopped (example_file 1 0 0 ''a'') \<and>
   ReadAt (example_file 1 0 0 ''a'') \<lparr>segments = [(0, 10, 0), (11, 20, 64)]\<rparr> 2 None None =
     (None, Some (SegmentOutOfRange 2 2)) \<and>
   ReadAt (example_file 1 0 0 ''a'') \<lparr>segments = [(0, 10, 0), (11, 20, 64)]\<rparr> (- 1) None None =
     (None, Some (SegmentOutOfRange (- 1) 2)) \<and>
   ReadAt (example_file 1 0 0 ''a'') \<lparr>segments = [(0, 10, 0), (11, 20, 64)]\<rparr> 1 None None =
     reader_ReadAt (reader (example_file 1 0 0 ''a''))
       \<lparr>segments = [(0, 10, 0), (11, 20, 64)]\<rparr> 1 None None"
  using ReadAt_segment_index[of "example_file 1 0 0 ''a''" 2
      "\<lparr>segments = [(0, 10, 0), (11, 20, 64)]\<rparr>" None None]
    ReadAt_segment_index[of "example_file 1 0 0 ''a''" "- 1"
      "\<lparr>segments = [(0, 10, 0), (11, 20, 64)]\<rparr>" None None]
    ReadAt_segment_index[of "example_file 1 0 0 ''a''" 1
      "\<lparr>segments = [(0, 10, 0), (11, 20, 64)]\<rparr>" None None]
  by (simp add: example_file_def OpenTSSPFile_def stopped_def segmentCount_def)

text \<open>
  The reads that test the stop flag: on a stopped file each of them returns
  \<open>errFileClosed\<close>, whatever the reader is.
\<close>

lemma guarded_reads_closed:
  assumes "stopped f"
  shows "MetaIndex f sid tr = (0, None, Some errFileClosed)"
    and "MetaIndexAt f idx = (None, Some errFileClosed)"
    and "ChunkMeta f sid offset sz itemCount metaIdx cdst buffer = (None, Some errFileClosed)"
    and "ChunkMetaAt f idx = (None, Some errFileClosed)"
    and "ReadData f offset sz bdst = ([], Some errFileClosed)"
    and "ReadChunkMetaData f metaIdx m cms = (cms, Some errFileClosed)"
    and "ReadAt f cm segment rdst decs = (None, Some errFileClosed)"
    and "Contains f sid = (False, Some errFileClosed)"
    and "ContainsValue f sid tr = (False, Some errFileClosed)"
    and "ContainsTime f tr = (False, Some errFileClosed)"
    and "MinMaxTime f = (0, 0, Some errFileClosed)"
  using assms
  by (simp_all add: MetaIndex_def MetaIndexAt_def ChunkMeta_def ChunkMetaAt_def ReadData_def
      ReadChunkMetaData_def ReadAt_def Contains_def ContainsValue_def ContainsTime_def
      MinMaxTime_def)

lemma Stop_stopped: "flag f \<noteq> - 1 \<Longrightarrow> stopped (Stop f)"
proof -
  assume "flag f \<noteq> - 1"
  then have "flag f + 1 \<noteq> 0"
    by (metis add.commute add_eq_0_iff)
  then show ?thesis
    by (simp add: stopped_def Stop_def word_greater_zero_iff)
qed

text \<open>
  Claim C2. Every read of a file whose stop flag is set is to return \<open>errFileClosed\<close>
  instead of going to the reader. \<open>ReadDataBlock\<close>, \<open>ReadMetaBlock\<close> and
  \<open>BlockHeader\<close> do not test the flag: on a file stopped by \<open>Stop\<close> they return what
  the reader returns, where \<open>ReadData\<close> on the same file returns \<open>errFileClosed\<close>.
\<close>

theorem unguarded_reads_after_Stop:
  "stopped (Stop (example_file 1 0 0 ''a'')) \<and>
   ReadData (Stop (example_file 1 0 0 ''a'')) 0 3 None = ([], Some errFileClosed) \<and>
   ReadDataBlock (Stop (example_file 1 0 0 ''a'')) 0 3 None = ([1, 2, 3], None) \<and>
   ReadMetaBlock (Stop (example_file 1 0 0 ''a'')) 0 1 0 2 1 None = ([4, 5], None) \<and>
   BlockHeader (Stop (example_file 1 0 0 ''a'')) None [] = ([], None)"
  by (simp add: stopped_def Stop_def example_file_def OpenTSSPFile_def example_reader_def
      ReadData_def ReadDataBlock_def ReadMetaBlock_def BlockHeader_def)

subsection \<open>Removing a file\<close>

lemma Remove_unlinked:
  assumes "Remove rm f env = Return (err, f', env')"
  shows "unlinked env' =
           (if ref f = 1 then reader_Path (reader f) # unlinked env else unlinked env)"
proof (cases "ref f = 1")
  case False
  then have "ref f - 1 \<noteq> 0" by simp
  then show ?thesis using assms False by (auto simp add: Remove_def Let_def)
next
  case True
  then show ?thesis
    using assms
    by (auto simp add: Remove_def Let_def addMemSize_def RemoveFromEvictList_def
        split: if_splits option.splits prod.splits)
qed


text \<open>
  Claim C5. Let \<open>Remove\<close> release the last reference and reach the unlink, and let the
  unlink fail with error \<open>e\<close>. If \<open>e\<close> says that the file does not exist, \<open>Remove\<close>
  does what it does when the unlink succeeds: it returns no error, the reader is closed, and
  when the reader held cached bytes the counters of the level are reduced by them and the file
  leaves the eviction list. Any other \<open>e\<close> is returned, wrapped with the path.
\<close>

theorem Remove_unlink_failure:
  assumes "ref f - 1 = 0" and "wg f = 0" and "lock f = Some lockPath"
    and "rm (reader_Path (reader f)) lockPath = Some e"
  shows "(IsNotExist e \<longrightarrow>
            Remove rm f env = Remove (\<lambda>path lck. None) f env \<and>
            (\<exists>f' env'. Remove rm f env = Return (None, f', env') \<and>
               reader_closed (reader f') \<and>
               (0 < reader_InMemSize (reader f) \<longrightarrow>
                  memEle f' = None \<and>
                  total_bytes (levels env' (level (name f))) =
                    total_bytes (levels env (level (name f))) - reader_InMemSize (reader f) \<and>
                  order_bytes (levels env' (level (name f))) =
                    order_bytes (levels env (level (name f))) -
                      (if order (name f) then reader_InMemSize (reader f) else 0) \<and>
                  unorder_bytes (levels env' (level (name f))) =
                    unorder_bytes (levels env (level (name f))) -
                      (if order (name f) then 0 else reader_InMemSize (reader f)) \<and>
                  lru (levels env' (level (name f))) =
                    (case memEle f of
                       None \<Rightarrow> lru (levels env (level (name f)))
                     | Some x \<Rightarrow> remove1 x (lru (levels env (level (name f)))))))) \<and>
         (\<not> IsNotExist e \<longrightarrow>
            (\<exists>f' env'. Remove rm f env =
               Return (Some (errRemoveFail (reader_Path (reader f)) e), f', env')))"
  using assms
  by (auto simp add: Remove_def Let_def addMemSize_def RemoveFromEvictList_def reader_Close_def
      split: option.splits)

theorem Remove_unlink_failure_witness:
  "ref example_cached_file - 1 = 0 \<and> wg example_cached_file = 0 \<and>
   lock example_cached_file = Some ''/data/shard/lock'' \<and>
   IsNotExist ErrNotExist \<and>
   Remove (\<lambda>path lck. Some ErrNotExist) example_cached_file example_env =
     Remove (\<lambda>path lck. None) example_cached_file example_env \<and>
   (\<exists>f' env'. Remove (\<lambda>path lck. Some ErrNotExist) example_cached_file example_env =
        Return (None, f', env') \<and>
      reader_closed (reader f') \<and> memEle f' = None \<and>
      total_bytes (levels env' 0) = 4096 \<and> order_bytes (levels env' 0) = 4096 \<and>
      unorder_bytes (levels env' 0) = 0 \<and> lru (levels env' 0) = [3]) \<and>
   \<not> IsNotExist (ErrOther ''permission denied'') \<and>
   (\<exists>f' env'. Remove (\<lambda>path lck. Some (ErrOther ''permission denied'')) example_cached_file
        example_env =
      Return (Some (errRemoveFail ''a'' (ErrOther ''permission denied'')), f', env'))"
proof -
  let ?f = example_cached_file
  let ?ne = "\<lambda>(path :: string) (lck :: string). Some ErrNotExist"
  let ?pd = "\<lambda>(path :: string) (lck :: string). Some (ErrOther ''permission denied'')"
  have h: "ref ?f - 1 = 0" "wg ?f = 0" "lock ?f = Some ''/data/shard/lock''"
    by (simp_all add: example_cached_file_def example_file_def OpenTSSPFile_def)
  have v: "reader_Path (reader ?f) = ''a''" "reader_InMemSize (reader ?f) = 4096"
    "level (name ?f) = 0" "order (name ?f)" "memEle ?f = Some 7"
    by (simp_all add: example_cached_file_def example_file_def OpenTSSPFile_def
        example_reader_def)
  have e: "total_bytes (levels example_env 0) = 8192" "order_bytes (levels example_env 0) = 8192"
    "unorder_bytes (levels example_env 0) = 0" "lru (levels example_env 0) = [7, 3]"
    by (simp_all add: example_env_def)
  have n: "IsNotExist ErrNotExist" "\<not> IsNotExist (ErrOther ''permission denied'')"
    by simp_all
  note t1 = Remove_unlink_failure[of ?f "''/data/shard/lock''" ?ne ErrNotExist example_env,
      OF h refl]
  note t2 = Remove_unlink_failure[of ?f "''/data/shard/lock''" ?pd
      "ErrOther ''permission denied''" example_env, OF h refl]
  have a: "Remove ?ne ?f example_env = Remove (\<lambda>path lck. None) ?f example_env"
    using t1 n(1) by blast
  have b: "\<exists>f' env'. Remove ?ne ?f example_env = Return (None, f', env') \<and>
      reader_closed (reader f') \<and> memEle f' = None \<and>
      total_bytes (levels env' 0) = 4096 \<and> order_bytes (levels env' 0) = 4096 \<and>
      unorder_bytes (levels env' 0) = 0 \<and> lru (levels env' 0) = [3]"
    using t1[THEN conjunct1, rule_format, OF n(1), THEN conjunct2] by (simp add: v e)
  have c: "\<exists>f' env'. Remove ?pd ?f example_env =
      Return (Some (errRemoveFail ''a'' (ErrOther ''permission denied'')), f', env')"
    using t2[THEN conjunct2, rule_format, OF n(2)] by (simp add: v)
  show ?thesis using h n a b c by simp
qed

subsection \<open>Sequences of Ref, Unref and one Remove\<close>

lemma run_append:
  "run rm (xs @ ys) s =
     (case run rm xs s of
        Return s' \<Rightarrow> run rm ys s'
      | Panics m \<Rightarrow> Panics m
      | Blocks \<Rightarrow> Blocks)"
  by (induction xs arbitrary: s) (auto split: outcome.splits)

lemma step_keeps_env:
  assumes "c \<noteq> CallRemove" and "step rm c (f, env) = Return (f', env')"
  shows "env' = env"
  using assms by (cases c) (auto split: outcome.splits)

lemma run_keeps_env:
  assumes "CallRemove \<notin> set cs" and "run rm cs (f, env) = Return (f', env')"
  shows "env' = env"
  using assms
proof (induction cs arbitrary: f)
  case Nil
  then show ?case by simp
next
  case (Cons c cs)
  from Cons.prems obtain f1 env1 where s: "step rm c (f, env) = Return (f1, env1)"
    and r: "run rm cs (f1, env1) = Return (f', env')"
    by (auto split: outcome.splits)
  have "env1 = env" using step_keeps_env[OF _ s] Cons.prems(1) by auto
  then show ?case using Cons.IH[of f1] Cons.prems(1) r by simp
qed

text \<open>
  Claim C1, amended. In a sequence of \<open>Ref\<close> and \<open>Unref\<close> calls with exactly one
  \<open>Remove\<close> that runs to its end, the file is unlinked at most once and only inside the
  \<open>Remove\<close> call: that call unlinks exactly when its own decrement brings the counter of
  references to zero. While a reader still holds a reference \<open>Remove\<close> does not unlink;
  \<open>Ref\<close> and \<open>Unref\<close> never unlink, before or after.
\<close>

theorem unlink_only_in_Remove_at_zero:
  assumes "CallRemove \<notin> set pre" and "CallRemove \<notin> set post"
    and "run rm (pre @ CallRemove # post) (f, env) = Return (f'', env'')"
  shows "\<exists>f1 f2 env2.
           run rm pre (f, env) = Return (f1, env) \<and>
           step rm CallRemove (f1, env) = Return (f2, env2) \<and>
           run rm post (f2, env2) = Return (f'', env2) \<and>
           env'' = env2 \<and>
           unlinked env2 =
             (if ref f1 - 1 = 0 then reader_Path (reader f1) # unlinked env else unlinked env)"
proof -
  from assms(3) obtain s1 where p1: "run rm pre (f, env) = Return s1"
    and p2: "run rm (CallRemove # post) s1 = Return (f'', env'')"
    by (auto simp add: run_append split: outcome.splits)
  obtain f1 env1 where s1: "s1 = (f1, env1)" by (cases s1)
  have e1: "env1 = env" using run_keeps_env[OF assms(1)] p1 s1 by simp
  from p2 obtain s2 where q1: "step rm CallRemove (f1, env) = Return s2"
    and q2: "run rm post s2 = Return (f'', env'')"
    using s1 e1 by (auto split: outcome.splits)
  obtain f2 env2 where s2: "s2 = (f2, env2)" by (cases s2)
  have e2: "env'' = env2" using run_keeps_env[OF assms(2)] q2 s2 by simp
  from q1 s2 obtain err where rmv: "Remove rm f1 env = Return (err, f2, env2)"
    by (auto split: outcome.splits)
  have "unlinked env2 =
      (if ref f1 - 1 = 0 then reader_Path (reader f1) # unlinked env else unlinked env)"
    using Remove_unlinked[OF rmv] by simp
  then show ?thesis using p1 s1 e1 q1 s2 q2 e2 by simp
qed

theorem unlink_only_in_Remove_at_zero_witness:
  "CallRemove \<notin> set [CallRef, CallUnref] \<and> CallRemove \<notin> set [] \<and>
   (\<exists>f'' env''.
      run (\<lambda>path lck. None) ([CallRef, CallUnref] @ CallRemove # [])
        (example_file 1 0 0 ''a'', example_env) = Return (f'', env'') \<and>
      unlinked env'' = [''a'']) \<and>
   CallRemove \<notin> set [CallRef] \<and> CallRemove \<notin> set [CallUnref] \<and>
   (\<exists>f'' env''.
      run (\<lambda>path lck. None) ([CallRef] @ CallRemove # [CallUnref])
        (example_file 1 0 0 ''a'', example_env) = Return (f'', env'') \<and>
      unlinked env'' = [])"
proof -
  let ?ok = "\<lambda>(path :: string) (lck :: string). (None :: error option)"
  let ?f = "example_file 1 0 0 ''a''"
  have n: "CallRemove \<notin> set [CallRef, CallUnref]" "CallRemove \<notin> set []"
    "CallRemove \<notin> set [CallRef]" "CallRemove \<notin> set [CallUnref]"
    by simp_all
  have u: "unlinked example_env = []" by (simp add: example_env_def)
  have p1: "run ?ok [CallRef, CallUnref] (?f, example_env) = Return (?f, example_env)"
    by (simp add: example_file_def OpenTSSPFile_def Ref_def Unref_def stopped_def Let_def)
  have p2: "run ?ok [CallRef] (?f, example_env) =
      Return (?f\<lparr>ref := 2, wg := 1\<rparr>, example_env)"
    by (simp add: example_file_def OpenTSSPFile_def Ref_def stopped_def)
  have v: "ref ?f - 1 = 0" "reader_Path (reader ?f) = ''a''"
    "ref (?f\<lparr>ref := 2, wg := 1\<rparr>) - 1 \<noteq> 0"
    by (simp_all add: example_file_def OpenTSSPFile_def example_reader_def)
  have "\<exists>f'' env''. run ?ok ([CallRef, CallUnref] @ CallRemove # []) (?f, example_env) =
      Return (f'', env'')"
    by (simp add: example_file_def OpenTSSPFile_def Ref_def Unref_def Remove_def stopped_def
        Let_def example_reader_def reader_Close_def RemoveFromEvictList_def)
  then obtain f'' env'' where r1:
    "run ?ok ([CallRef, CallUnref] @ CallRemove # []) (?f, example_env) = Return (f'', env'')"
    by blast
  have a: "unlinked env'' = [''a'']"
    using unlink_only_in_Remove_at_zero[OF n(1) n(2) r1] p1 v u by auto
  have "\<exists>g'' env''. run ?ok ([CallRef] @ CallRemove # [CallUnref]) (?f, example_env) =
      Return (g'', env'')"
    by (simp add: example_file_def OpenTSSPFile_def Ref_def Unref_def Remove_def stopped_def
        Let_def)
  then obtain g'' env3 where r2:
    "run ?ok ([CallRef] @ CallRemove # [CallUnref]) (?f, example_env) = Return (g'', env3)"
    by blast
  have b: "unlinked env3 = []"
    using unlink_only_in_Remove_at_zero[OF n(3) n(4) r2] p2 v u by auto
  show ?thesis using n r1 a r2 b by blast
qed

text \<open>
  Claim C1 as stated fails: a reader takes a reference, \<open>Remove\<close> is called, the reader
  releases its reference. After \<open>Remove\<close> the counter is one, after the last \<open>Unref\<close>
  it is zero, and no unlink has happened.
\<close>

theorem unlink_missing_after_last_Unref:
  "run (\<lambda>path lck. None) [CallRef, CallRemove] (example_file 1 0 0 ''a'', example_env) =
     Return ((example_file 1 0 0 ''a'')\<lparr>ref := 1, flag := 1, wg := 1\<rparr>, example_env) \<and>
   run (\<lambda>path lck. None) [CallRef, CallRemove, CallUnref]
       (example_file 1 0 0 ''a'', example_env) =
     Return ((example_file 1 0 0 ''a'')\<lparr>ref := 0, flag := 1, wg := 1\<rparr>, example_env) \<and>
   unlinked example_env = []"
  by (simp add: example_file_def OpenTSSPFile_def Ref_def Unref_def Remove_def stopped_def
      Let_def example_env_def)

subsection \<open>Operations that are declared only\<close>

text \<open>
  Claim C9. \<open>Read\<close>, \<open>Delete\<close>, \<open>DeleteRange\<close>, \<open>HasTombstones\<close> and
  \<open>TombstoneFiles\<close> panic for every file and all arguments; none of them returns a result
  or an error.
\<close>

theorem unimplemented_operations_panic:
  "Read f sid tr dst = Panics ''impl me'' \<and>
   Delete f ids = Panics ''impl me'' \<and>
   DeleteRange f ids mn mx = Panics ''impl me'' \<and>
   HasTombstones f = Panics ''impl me'' \<and>
   TombstoneFiles f = Panics ''impl me''"
  by (simp add: Read_def Delete_def DeleteRange_def HasTombstones_def TombstoneFiles_def)

section \<open>Properties of the collection\<close>

subsection \<open>Full compaction\<close>

lemma fullCompacted_loop_eq:
  "fullCompacted_loop fs lv sq i b =
     (b \<and> (\<forall>j. i \<le> j \<and> j < length fs \<longrightarrow> LevelAndSequence (fs ! j) = (lv, sq)))"
proof (induction fs lv sq i b rule: fullCompacted_loop.induct)
  case (1 fs lv sq i sameLeve)
  show ?case
  proof (cases "i < length fs \<and> sameLeve")
    case True
    obtain lvl curSeq where ls: "LevelAndSequence (fs ! i) = (lvl, curSeq)"
      by (cases "LevelAndSequence (fs ! i)")
    have ih: "fullCompacted_loop fs lv sq (i + 1) (lv = lvl \<and> curSeq = sq) =
        ((lv = lvl \<and> curSeq = sq) \<and>
         (\<forall>j. i + 1 \<le> j \<and> j < length fs \<longrightarrow> LevelAndSequence (fs ! j) = (lv, sq)))"
      using "1.IH"[of "(lvl, curSeq)" lvl curSeq] True ls by simp
    have split: "(\<forall>j. i \<le> j \<and> j < length fs \<longrightarrow> LevelAndSequence (fs ! j) = (lv, sq)) =
       (LevelAndSequence (fs ! i) = (lv, sq) \<and>
        (\<forall>j. i + 1 \<le> j \<and> j < length fs \<longrightarrow> LevelAndSequence (fs ! j) = (lv, sq)))"
    proof (intro iffI conjI allI impI)
      assume a: "\<forall>j. i \<le> j \<and> j < length fs \<longrightarrow> LevelAndSequence (fs ! j) = (lv, sq)"
      show "LevelAndSequence (fs ! i) = (lv, sq)" using a True by simp
      fix j assume "i + 1 \<le> j \<and> j < length fs"
      then show "LevelAndSequence (fs ! j) = (lv, sq)" using a by simp
    next
      fix j
      assume a: "LevelAndSequence (fs ! i) = (lv, sq) \<and>
        (\<forall>j. i + 1 \<le> j \<and> j < length fs \<longrightarrow> LevelAndSequence (fs ! j) = (lv, sq))"
        and b: "i \<le> j \<and> j < length fs"
      show "LevelAndSequence (fs ! j) = (lv, sq)"
      proof (cases "j = i")
        case True then show ?thesis using a by simp
      next
        case False then show ?thesis using a b by simp
      qed
    qed
    show ?thesis
      using True ls ih split by (subst fullCompacted_loop.simps) auto
  next
    case False
    then show ?thesis by (subst fullCompacted_loop.simps) auto
  qed
qed

text \<open>
  Claim C3. \<open>fullCompacted\<close> is true exactly when the collection has at most one file or
  every file reports the level and sequence of the first one.
\<close>

theorem fullCompacted_iff:
  "fullCompacted F \<longleftrightarrow>
     (length (files F) \<le> 1 \<or>
      (\<forall>f \<in> set (files F). LevelAndSequence f = LevelAndSequence (files F ! 0)))"
proof (cases "length (files F) \<le> 1")
  case True
  then show ?thesis by (simp add: fullCompacted_def)
next
  case False
  obtain lv sq where ls: "LevelAndSequence (files F ! 0) = (lv, sq)"
    by (cases "LevelAndSequence (files F ! 0)")
  have "(\<forall>j. 1 \<le> j \<and> j < length (files F) \<longrightarrow> LevelAndSequence (files F ! j) = (lv, sq)) =
        (\<forall>j < length (files F). LevelAndSequence (files F ! j) = (lv, sq))"
  proof (intro iffI allI impI)
    fix j assume a: "\<forall>j. 1 \<le> j \<and> j < length (files F) \<longrightarrow> LevelAndSequence (files F ! j) = (lv, sq)"
      and b: "j < length (files F)"
    show "LevelAndSequence (files F ! j) = (lv, sq)"
      using a b ls by (cases "j = 0") simp_all
  next
    fix j assume "\<forall>j<length (files F). LevelAndSequence (files F ! j) = (lv, sq)"
      and "1 \<le> j \<and> j < length (files F)"
    then show "LevelAndSequence (files F ! j) = (lv, sq)" by simp
  qed
  also have "\<dots> = (\<forall>f \<in> set (files F). LevelAndSequence f = (lv, sq))"
    by (simp add: all_set_conv_all_nth)
  finally show ?thesis
    using False ls by (simp add: fullCompacted_def fullCompacted_loop_eq)
qed

theorem fullCompacted_iff_witness:
  "fullCompacted \<lparr>files_ref = 1, files_wg = 0, closing = 0,
     files = [example_file 5 3 0 ''a'', example_file 5 3 1 ''b'']\<rparr> \<and>
   \<not> fullCompacted example_files \<and>
   fullCompacted NewTSSPFiles"
  using fullCompacted_iff[of "\<lparr>files_ref = 1, files_wg = 0, closing = 0,
     files = [example_file 5 3 0 ''a'', example_file 5 3 1 ''b'']\<rparr>"]
    fullCompacted_iff[of example_files] fullCompacted_iff[of NewTSSPFiles]
  by (simp add: example_files_def NewTSSPFiles_def example_file_def OpenTSSPFile_def
      LevelAndSequence_def)

subsection \<open>Locating a file\<close>

lemma sorted_by_Less_seq:
  assumes "sorted_by_Less F" and "i \<le> j" and "j < length (files F)"
  shows "snd (LevelAndSequence (files F ! i)) \<le> snd (LevelAndSequence (files F ! j))"
proof (cases "i = j")
  case True
  then show ?thesis by simp
next
  case False
  then have "i < j" using assms(2) by simp
  then have "\<not> Less F j i"
    using assms(1,3) by (simp add: sorted_by_Less_def)
  then show ?thesis
    by (auto simp add: Less_def Let_def split: if_splits)
qed

lemma search_returns:
  assumes "left \<le> right" and "right < length fs"
  shows "\<exists>idx l. fileIndex_search fs sq left right = Return (idx, l) \<and> l < length fs \<and>
           (idx = - 1 \<or> (0 \<le> idx \<and> idx < int (length fs) \<and>
              snd (LevelAndSequence (fs ! nat idx)) = sq))"
  using assms
proof (induction fs sq left right rule: fileIndex_search.induct)
  case (1 fs sq left right)
  show ?case
  proof (cases "left < right")
    case False
    then show ?thesis
      using "1.prems" by (subst fileIndex_search.simps) simp
  next
    case True
    define mid where "mid = (left + right) div 2"
    have m: "left \<le> mid" "mid < right" "mid < length fs"
      using True "1.prems" by (simp_all add: mid_def)
    consider (eq) "sq = snd (LevelAndSequence (fs ! mid))"
      | (lt) "sq \<noteq> snd (LevelAndSequence (fs ! mid))" "sq < snd (LevelAndSequence (fs ! mid))"
      | (gt) "sq \<noteq> snd (LevelAndSequence (fs ! mid))" "\<not> sq < snd (LevelAndSequence (fs ! mid))"
      by blast
    then show ?thesis
    proof cases
      case eq
      then show ?thesis
        using True m "1.prems" by (subst fileIndex_search.simps) (simp add: mid_def[symmetric])
    next
      case lt
      have "\<exists>idx l. fileIndex_search fs sq left mid = Return (idx, l) \<and> l < length fs \<and>
           (idx = - 1 \<or> (0 \<le> idx \<and> idx < int (length fs) \<and>
              snd (LevelAndSequence (fs ! nat idx)) = sq))"
        using "1.IH"(1)[OF True mid_def m(3) refl lt] m by simp
      then show ?thesis
        using True m lt by (subst fileIndex_search.simps) (simp add: mid_def[symmetric])
    next
      case gt
      have "\<exists>idx l. fileIndex_search fs sq (mid + 1) right = Return (idx, l) \<and> l < length fs \<and>
           (idx = - 1 \<or> (0 \<le> idx \<and> idx < int (length fs) \<and>
              snd (LevelAndSequence (fs ! nat idx)) = sq))"
        using "1.IH"(2)[OF True mid_def m(3) refl gt] m "1.prems" by simp
      then show ?thesis
        using True m gt by (subst fileIndex_search.simps) (simp add: mid_def[symmetric])
    qed
  qed
qed

lemma search_member:
  assumes "\<forall>i j. i \<le> j \<and> j < length fs \<longrightarrow>
             snd (LevelAndSequence (fs ! i)) \<le> snd (LevelAndSequence (fs ! j))"
    and "left \<le> k" and "k \<le> right" and "right < length fs"
    and "snd (LevelAndSequence (fs ! k)) = sq"
  shows "\<exists>idx l. fileIndex_search fs sq left right = Return (idx, l) \<and> (idx = - 1 \<longrightarrow> l = k)"
  using assms
proof (induction fs sq left right rule: fileIndex_search.induct)
  case (1 fs sq left right)
  show ?case
  proof (cases "left < right")
    case False
    then have "left = k" using "1.prems" by simp
    then show ?thesis
      using False by (subst fileIndex_search.simps) simp
  next
    case True
    define mid where "mid = (left + right) div 2"
    have m: "left \<le> mid" "mid < right" "mid < length fs"
      using True "1.prems" by (simp_all add: mid_def)
    note mono = "1.prems"(1)
    consider (eq) "sq = snd (LevelAndSequence (fs ! mid))"
      | (lt) "sq \<noteq> snd (LevelAndSequence (fs ! mid))" "sq < snd (LevelAndSequence (fs ! mid))"
      | (gt) "sq \<noteq> snd (LevelAndSequence (fs ! mid))" "\<not> sq < snd (LevelAndSequence (fs ! mid))"
      by blast
    then show ?thesis
    proof cases
      case eq
      then show ?thesis
        using True m by (subst fileIndex_search.simps) (simp add: mid_def[symmetric])
    next
      case lt
      have "k \<le> mid"
      proof (rule ccontr)
        assume "\<not> k \<le> mid"
        then have "mid \<le> k \<and> k < length fs" using "1.prems" by simp
        then have "snd (LevelAndSequence (fs ! mid)) \<le> snd (LevelAndSequence (fs ! k))"
          using mono by blast
        then show False using lt "1.prems"(5) by simp
      qed
      then have "\<exists>idx l. fileIndex_search fs sq left mid = Return (idx, l) \<and> (idx = - 1 \<longrightarrow> l = k)"
        using "1.IH"(1)[OF True mid_def m(3) refl lt] m "1.prems" by simp
      then show ?thesis
        using True m lt by (subst fileIndex_search.simps) (simp add: mid_def[symmetric])
    next
      case gt
      have "mid + 1 \<le> k"
      proof (rule ccontr)
        assume "\<not> mid + 1 \<le> k"
        then have "k \<le> mid \<and> mid < length fs" using m by simp
        then have "snd (LevelAndSequence (fs ! k)) \<le> snd (LevelAndSequence (fs ! mid))"
          using mono by blast
        then show False using gt "1.prems"(5) by simp
      qed
      then have "\<exists>idx l. fileIndex_search fs sq (mid + 1) right = Return (idx, l) \<and> (idx = - 1 \<longrightarrow> l = k)"
        using "1.IH"(2)[OF True mid_def m(3) refl gt] m "1.prems" by simp
      then show ?thesis
        using True m gt by (subst fileIndex_search.simps) (simp add: mid_def[symmetric])
    qed
  qed
qed


lemma down_sound:
  assumes "i < int (length fs)"
  shows "\<exists>r. fileIndex_down fs sq p i = Return r \<and>
           (\<forall>j. r = Some j \<longrightarrow> 0 \<le> j \<and> j \<le> i \<and> Path (fs ! nat j) = p)"
  using assms
proof (induction fs sq p i rule: fileIndex_down.induct)
  case (1 fs sq p i)
  show ?case
  proof (cases "i \<ge> 0 \<and> snd (LevelAndSequence (fs ! nat i)) = sq \<and> Path (fs ! nat i) \<noteq> p")
    case True
    then have "\<exists>r. fileIndex_down fs sq p (i - 1) = Return r \<and>
           (\<forall>j. r = Some j \<longrightarrow> 0 \<le> j \<and> j \<le> i - 1 \<and> Path (fs ! nat j) = p)"
      using "1.IH" "1.prems" by simp
    then show ?thesis
      using True "1.prems" by (subst fileIndex_down.simps) auto
  next
    case False
    then show ?thesis
      using "1.prems" by (subst fileIndex_down.simps) auto
  qed
qed

lemma up_sound:
  assumes "0 \<le> i"
  shows "\<exists>r. fileIndex_up fs sq p i = Return r \<and>
           (\<forall>j. r = Some j \<longrightarrow> i \<le> j \<and> j < int (length fs) \<and> Path (fs ! nat j) = p)"
  using assms
proof (induction fs sq p i rule: fileIndex_up.induct)
  case (1 fs sq p i)
  show ?case
  proof (cases "i < int (length fs) \<and> snd (LevelAndSequence (fs ! nat i)) = sq \<and> Path (fs ! nat i) \<noteq> p")
    case True
    then have "\<exists>r. fileIndex_up fs sq p (i + 1) = Return r \<and>
           (\<forall>j. r = Some j \<longrightarrow> i + 1 \<le> j \<and> j < int (length fs) \<and> Path (fs ! nat j) = p)"
      using "1.IH" "1.prems" by simp
    then show ?thesis
      using True "1.prems" by (subst fileIndex_up.simps) auto
  next
    case False
    then show ?thesis
      using "1.prems" by (subst fileIndex_up.simps) auto
  qed
qed

lemma down_complete:
  assumes "0 \<le> k" and "k \<le> i" and "i < int (length fs)"
    and "\<forall>m. k \<le> m \<and> m \<le> i \<longrightarrow> snd (LevelAndSequence (fs ! nat m)) = sq"
    and "Path (fs ! nat k) = p"
  shows "\<exists>j. fileIndex_down fs sq p i = Return (Some j)"
  using assms
proof (induction fs sq p i rule: fileIndex_down.induct)
  case (1 fs sq p i)
  have here: "i \<ge> 0" "snd (LevelAndSequence (fs ! nat i)) = sq"
    using "1.prems" by auto
  show ?case
  proof (cases "Path (fs ! nat i) = p")
    case True
    then show ?thesis
      using here "1.prems" by (subst fileIndex_down.simps) simp
  next
    case False
    then have "k \<noteq> i" using "1.prems"(5) by auto
    then have "k \<le> i - 1" using "1.prems"(2) by simp
    then have "\<exists>j. fileIndex_down fs sq p (i - 1) = Return (Some j)"
      using "1.IH" here False "1.prems" by simp
    then show ?thesis
      using here False "1.prems" by (subst fileIndex_down.simps) simp
  qed
qed

lemma up_complete:
  assumes "0 \<le> i" and "i \<le> k" and "k < int (length fs)"
    and "\<forall>m. i \<le> m \<and> m \<le> k \<longrightarrow> snd (LevelAndSequence (fs ! nat m)) = sq"
    and "Path (fs ! nat k) = p"
  shows "\<exists>j. fileIndex_up fs sq p i = Return (Some j)"
  using assms
proof (induction fs sq p i rule: fileIndex_up.induct)
  case (1 fs sq p i)
  have here: "i < int (length fs)" "snd (LevelAndSequence (fs ! nat i)) = sq"
    using "1.prems" by auto
  show ?case
  proof (cases "Path (fs ! nat i) = p")
    case True
    then show ?thesis
      using here "1.prems" by (subst fileIndex_up.simps) simp
  next
    case False
    then have "k \<noteq> i" using "1.prems"(5) by auto
    then have "i + 1 \<le> k" using "1.prems"(2) by simp
    then have "\<exists>j. fileIndex_up fs sq p (i + 1) = Return (Some j)"
      using "1.IH" here False "1.prems" by simp
    then show ?thesis
      using here False "1.prems" by (subst fileIndex_up.simps) simp
  qed
qed

lemma distinct_Path_index:
  assumes "distinct (map Path fs)" and "j < length fs" and "k < length fs"
    and "Path (fs ! j) = Path (fs ! k)"
  shows "j = k"
proof -
  have "map Path fs ! j = map Path fs ! k" using assms by simp
  then show ?thesis
    using assms by (simp add: nth_eq_iff_index_eq del: nth_map)
qed

lemma seq_mono_int:
  assumes "\<forall>i j. i \<le> j \<and> j < length fs \<longrightarrow>
             snd (LevelAndSequence (fs ! i)) \<le> snd (LevelAndSequence (fs ! j))"
    and "0 \<le> a" and "a \<le> b" and "b < int (length fs)"
  shows "snd (LevelAndSequence (fs ! nat a)) \<le> snd (LevelAndSequence (fs ! nat b))"
proof -
  have "nat a \<le> nat b \<and> nat b < length fs" using assms(2-4) by auto
  then show ?thesis using assms(1) by blast
qed

lemma fileIndex_member:
  assumes srt: "sorted_by_Less F" and dst: "distinct (map Path (files F))"
    and k: "k < length (files F)"
  shows "fileIndex F (files F ! k) = Return (int k)"
proof -
  let ?fs = "files F"
  let ?sq = "snd (LevelAndSequence (?fs ! k))"
  let ?p = "Path (?fs ! k)"
  have mono: "\<forall>i j. i \<le> j \<and> j < length ?fs \<longrightarrow>
             snd (LevelAndSequence (?fs ! i)) \<le> snd (LevelAndSequence (?fs ! j))"
    using sorted_by_Less_seq[OF srt]  by simp
  have kl: "k < length ?fs" using k  by simp
  have ne: "length ?fs \<noteq> 0" using kl by auto
  obtain idx l where s1: "fileIndex_search ?fs ?sq 0 (length ?fs - 1) = Return (idx, l)"
    and s2: "l < length ?fs"
    and s3: "idx = - 1 \<or> (0 \<le> idx \<and> idx < int (length ?fs) \<and> snd (LevelAndSequence (?fs ! nat idx)) = ?sq)"
    using search_returns[of 0 "length ?fs - 1" ?fs ?sq] ne by auto
  have s4: "idx = - 1 \<longrightarrow> l = k"
    using search_member[OF mono, of 0 k "length ?fs - 1" ?sq] kl s1 by auto
  have uniq: "j = int k" if "0 \<le> j" "j < int (length ?fs)" "Path (?fs ! nat j) = ?p" for j
  proof -
    have "nat j < length ?fs" using that by simp
    then have "nat j = k" using distinct_Path_index[OF dst _ kl, of "nat j"] that(3) by simp
    then show ?thesis using that(1) by simp
  qed
  have unfold: "fileIndex F (files F ! k) =
       (if idx \<noteq> - 1 then
              (case fileIndex_down ?fs ?sq ?p idx of
                 Panics m \<Rightarrow> Panics m
               | Blocks \<Rightarrow> Blocks
               | Return (Some i) \<Rightarrow> Return i
               | Return None \<Rightarrow>
                  (case fileIndex_up ?fs ?sq ?p (idx + 1) of
                     Panics m \<Rightarrow> Panics m
                   | Blocks \<Rightarrow> Blocks
                   | Return (Some i) \<Rightarrow> Return i
                   | Return None \<Rightarrow> fileIndex_left ?fs ?p l))
            else fileIndex_left ?fs ?p l)"
    using ne s1 by (simp add: fileIndex_def Len_def Let_def)
  show ?thesis
  proof (cases "idx = - 1")
    case True
    then show ?thesis
      using unfold s4 kl by (simp add: fileIndex_left_def)
  next
    case False
    then have i: "0 \<le> idx" "idx < int (length ?fs)" "snd (LevelAndSequence (?fs ! nat idx)) = ?sq"
      using s3 by auto
    obtain r where d1: "fileIndex_down ?fs ?sq ?p idx = Return r"
      and d2: "\<forall>j. r = Some j \<longrightarrow> 0 \<le> j \<and> j \<le> idx \<and> Path (?fs ! nat j) = ?p"
      using down_sound[OF i(2), of ?sq ?p] by auto
    show ?thesis
    proof (cases r)
      case (Some j)
      then have "j = int k" using d2 uniq i by auto
      then show ?thesis using unfold False d1 Some by simp
    next
      case None
      have big: "idx < int k"
      proof (rule ccontr)
        assume "\<not> idx < int k"
        then have le: "int k \<le> idx" by simp
        have band: "\<forall>m. int k \<le> m \<and> m \<le> idx \<longrightarrow> snd (LevelAndSequence (?fs ! nat m)) = ?sq"
        proof (intro allI impI)
          fix m assume m: "int k \<le> m \<and> m \<le> idx"
          have "snd (LevelAndSequence (?fs ! nat (int k))) \<le> snd (LevelAndSequence (?fs ! nat m))"
            using seq_mono_int[OF mono, of "int k" m] m i by simp
          moreover have "snd (LevelAndSequence (?fs ! nat m)) \<le> snd (LevelAndSequence (?fs ! nat idx))"
            using seq_mono_int[OF mono, of m idx] m i by simp
          ultimately show "snd (LevelAndSequence (?fs ! nat m)) = ?sq"
            using i(3) by simp
        qed
        have "\<exists>j. fileIndex_down ?fs ?sq ?p idx = Return (Some j)"
          using down_complete[of "int k" idx ?fs ?sq ?p] le i(2) band by simp
        then show False using d1 None by simp
      qed
      have band: "\<forall>m. idx + 1 \<le> m \<and> m \<le> int k \<longrightarrow> snd (LevelAndSequence (?fs ! nat m)) = ?sq"
      proof (intro allI impI)
        fix m assume m: "idx + 1 \<le> m \<and> m \<le> int k"
        have "snd (LevelAndSequence (?fs ! nat idx)) \<le> snd (LevelAndSequence (?fs ! nat m))"
          using seq_mono_int[OF mono, of idx m] m i kl by simp
        moreover have "snd (LevelAndSequence (?fs ! nat m)) \<le> snd (LevelAndSequence (?fs ! nat (int k)))"
          using seq_mono_int[OF mono, of m "int k"] m i kl by simp
        ultimately show "snd (LevelAndSequence (?fs ! nat m)) = ?sq"
          using i(3) by simp
      qed
      obtain j where u1: "fileIndex_up ?fs ?sq ?p (idx + 1) = Return (Some j)"
        using up_complete[of "idx + 1" "int k" ?fs ?sq ?p] big i(1) kl band by auto
      have "idx + 1 \<le> j \<and> j < int (length ?fs) \<and> Path (?fs ! nat j) = ?p"
        using up_sound[of "idx + 1" ?fs ?sq ?p] i(1) u1 by auto
      then have "j = int k" using uniq i(1) by auto
      then show ?thesis using unfold False d1 None u1 by simp
    qed
  qed
qed

lemma fileIndex_absent:
  assumes "Path tbl \<notin> set (map Path (files F))"
  shows "fileIndex F tbl = Return (- 1)"
proof (cases "length (files F) = 0")
  case True
  then show ?thesis by (simp add: fileIndex_def)
next
  case ne: False
  let ?fs = "files F"
  let ?sq = "snd (LevelAndSequence tbl)"
  let ?p = "Path tbl"
  have absent: "Path (?fs ! j) \<noteq> ?p" if "j < length ?fs" for j
  proof -
    have "Path (?fs ! j) \<in> Path ` set ?fs"
      using that by (intro imageI nth_mem)
    then show ?thesis using assms by auto
  qed
  obtain idx l where s1: "fileIndex_search ?fs ?sq 0 (length ?fs - 1) = Return (idx, l)"
    and s2: "l < length ?fs"
    and s3: "idx = - 1 \<or> (0 \<le> idx \<and> idx < int (length ?fs) \<and> snd (LevelAndSequence (?fs ! nat idx)) = ?sq)"
    using search_returns[of 0 "length ?fs - 1" ?fs ?sq] ne by auto
  have last: "fileIndex_left ?fs ?p l = Return (- 1)"
    using s2 absent by (simp add: fileIndex_left_def)
  have unfold: "fileIndex F tbl =
       (if idx \<noteq> - 1 then
              (case fileIndex_down ?fs ?sq ?p idx of
                 Panics m \<Rightarrow> Panics m
               | Blocks \<Rightarrow> Blocks
               | Return (Some i) \<Rightarrow> Return i
               | Return None \<Rightarrow>
                  (case fileIndex_up ?fs ?sq ?p (idx + 1) of
                     Panics m \<Rightarrow> Panics m
                   | Blocks \<Rightarrow> Blocks
                   | Return (Some i) \<Rightarrow> Return i
                   | Return None \<Rightarrow> fileIndex_left ?fs ?p l))
            else fileIndex_left ?fs ?p l)"
    using ne s1 by (simp add: fileIndex_def Len_def Let_def)
  show ?thesis
  proof (cases "idx = - 1")
    case True
    then show ?thesis using unfold last by simp
  next
    case False
    then have i: "0 \<le> idx" "idx < int (length ?fs)" using s3 by auto
    obtain r where d1: "fileIndex_down ?fs ?sq ?p idx = Return r"
      and d2: "\<forall>j. r = Some j \<longrightarrow> 0 \<le> j \<and> j \<le> idx \<and> Path (?fs ! nat j) = ?p"
      using down_sound[OF i(2), of ?sq ?p] by auto
    have rn: "r = None"
    proof (cases r)
      case (Some j)
      then have "nat j < length ?fs \<and> Path (?fs ! nat j) = ?p" using d2 i by auto
      then show ?thesis using absent by blast
    qed simp
    obtain r' where u1: "fileIndex_up ?fs ?sq ?p (idx + 1) = Return r'"
      and u2: "\<forall>j. r' = Some j \<longrightarrow> idx + 1 \<le> j \<and> j < int (length ?fs) \<and> Path (?fs ! nat j) = ?p"
      using up_sound[of "idx + 1" ?fs ?sq ?p] i(1) by auto
    have rn': "r' = None"
    proof (cases r')
      case (Some j)
      then have "nat j < length ?fs \<and> Path (?fs ! nat j) = ?p" using u2 i by auto
      then show ?thesis using absent by blast
    qed simp
    show ?thesis using unfold False d1 rn u1 rn' last by simp
  qed
qed


text \<open>
  Claim C4. In a collection that is sorted by \<open>Less\<close> and whose members have pairwise
  different paths, \<open>fileIndex\<close> returns for every member its index, and returns \<open>-1\<close>
  for every file whose path is the path of no member; it does not panic.
\<close>

theorem fileIndex_correct:
  assumes "sorted_by_Less F" and "distinct (map Path (files F))"
  shows "(\<forall>k < length (files F). fileIndex F (files F ! k) = Return (int k)) \<and>
         (\<forall>tbl. Path tbl \<notin> set (map Path (files F)) \<longrightarrow> fileIndex F tbl = Return (- 1))"
  using assms fileIndex_member fileIndex_absent by blast

theorem fileIndex_correct_witness:
  "sorted_by_Less example_files \<and> distinct (map Path (files example_files)) \<and>
   fileIndex example_files (example_file 1 0 0 ''a'') = Return 0 \<and>
   fileIndex example_files (example_file 1 0 1 ''b'') = Return 1 \<and>
   fileIndex example_files (example_file 2 0 0 ''c'') = Return 2 \<and>
   fileIndex example_files (example_file 2 0 1 ''d'') = Return (- 1)"
proof -
  have s: "sorted_by_Less example_files"
    by (simp add: sorted_by_Less_def example_files_def Less_def LevelAndSequence_def
      FileNameExtend_def example_file_def OpenTSSPFile_def All_less_Suc less_Suc_eq)
  have d: "distinct (map Path (files example_files))"
    by (simp add: example_files_def Path_def stopped_def example_file_def OpenTSSPFile_def
      example_reader_def)
  have p: "Path (example_file 2 0 1 ''d'') \<notin> set (map Path (files example_files))"
    by (simp add: example_files_def Path_def stopped_def example_file_def OpenTSSPFile_def
      example_reader_def)
  note t = fileIndex_correct[OF s d]
  have n: "files example_files ! 0 = example_file 1 0 0 ''a''"
    "files example_files ! 1 = example_file 1 0 1 ''b''"
    "files example_files ! 2 = example_file 2 0 0 ''c''"
    "length (files example_files) = 3"
    by (simp_all add: example_files_def)
  have "fileIndex example_files (files example_files ! 0) = Return (int 0)"
    using t[THEN conjunct1, rule_format, of 0] n(4) by simp
  moreover have "fileIndex example_files (files example_files ! 1) = Return (int 1)"
    using t[THEN conjunct1, rule_format, of 1] n(4) by simp
  moreover have "fileIndex example_files (files example_files ! 2) = Return (int 2)"
    using t[THEN conjunct1, rule_format, of 2] n(4) by simp
  moreover have "fileIndex example_files (example_file 2 0 1 ''d'') = Return (- 1)"
    using t[THEN conjunct2, rule_format, OF p] .
  ultimately show ?thesis using s d n by simp
qed

end
